theory Spec2Isabelle
  imports Complex_Main "HOL-Library.Char_ord" "HOL-Library.List_Lexorder"
begin

section \<open>The books collection\<close>

text \<open>
  \<^verbatim>\<open>queries.js\<close> is one function, \<^verbatim>\<open>runQueries\<close>: a straight line of awaited driver
  calls on the collection \<^verbatim>\<open>books\<close> inside \<^verbatim>\<open>try\<close>/\<open>catch\<close>/\<open>finally\<close>. The script is
  embedded as the list of its statements, in source order; each driver call is a value of
  the datatype \<open>cmd\<close> holding the literal arguments the source passes. What the server
  does with a command is the function \<open>exec\<close>, written after the documented behaviour of
  the MongoDB operations the script uses.

  A document is its list of fields in stored order. Values are the BSON kinds the script
  can meet: null, booleans, numbers and strings. Numbers are exact rationals: the
  rounding of IEEE doubles is outside this model.
\<close>

datatype bval = VNull | VBool bool | VNum rat | VStr string

type_synonym doc = "(string \<times> bval) list"

text \<open>Reading a field path: an absent field reads as null.\<close>

definition get_field :: "doc \<Rightarrow> string \<Rightarrow> bval" where
  "get_field d f = (case map_of d f of None \<Rightarrow> VNull | Some v \<Rightarrow> v)"

text \<open>
  The BSON comparison order restricted to these kinds: null (and absent) before numbers,
  numbers before strings, strings before booleans; inside a kind the usual order.
\<close>

fun type_rank :: "bval \<Rightarrow> nat" where
  "type_rank VNull = 0"
| "type_rank (VNum q) = 1"
| "type_rank (VStr s) = 2"
| "type_rank (VBool b) = 3"

fun bson_le :: "bval \<Rightarrow> bval \<Rightarrow> bool" where
  "bson_le (VNum a) (VNum b) = (a \<le> b)"
| "bson_le (VStr a) (VStr b) = (a \<le> b)"
| "bson_le (VBool a) (VBool b) = (a \<le> b)"
| "bson_le a b = (type_rank a \<le> type_rank b)"

text \<open>\<^verbatim>\<open>$gt\<close> compares inside one kind only (type bracketing).\<close>

fun bson_gt :: "bval \<Rightarrow> bval \<Rightarrow> bool" where
  "bson_gt (VNum a) (VNum b) = (b < a)"
| "bson_gt (VStr a) (VStr b) = (b < a)"
| "bson_gt (VBool a) (VBool b) = (b < a)"
| "bson_gt a b = False"

subsection \<open>Filters, updates, sort keys\<close>

datatype cond = Eq bval | Gt bval

type_synonym filter = "(string \<times> cond) list"

fun holds :: "doc \<Rightarrow> string \<times> cond \<Rightarrow> bool" where
  "holds d (f, Eq v) = (get_field d f = v)"
| "holds d (f, Gt v) = bson_gt (get_field d f) v"

definition matches :: "filter \<Rightarrow> doc \<Rightarrow> bool" where
  "matches q d = list_all (holds d) q"

datatype update = Set "(string \<times> bval) list"

fun set_field :: "string \<Rightarrow> bval \<Rightarrow> doc \<Rightarrow> doc" where
  "set_field f v [] = [(f, v)]"
| "set_field f v ((k, x) # d) = (if k = f then (k, v) # d else (k, x) # set_field f v d)"

fun set_fields :: "(string \<times> bval) list \<Rightarrow> doc \<Rightarrow> doc" where
  "set_fields [] d = d"
| "set_fields ((f, v) # kvs) d = set_fields kvs (set_field f v d)"

fun apply_update :: "update \<Rightarrow> doc \<Rightarrow> doc" where
  "apply_update (Set kvs) d = set_fields kvs d"

fun update_first :: "(doc \<Rightarrow> bool) \<Rightarrow> (doc \<Rightarrow> doc) \<Rightarrow> doc list \<Rightarrow> doc list" where
  "update_first p u [] = []"
| "update_first p u (d # ds) = (if p d then u d # ds else d # update_first p u ds)"

fun delete_first :: "(doc \<Rightarrow> bool) \<Rightarrow> doc list \<Rightarrow> doc list" where
  "delete_first p [] = []"
| "delete_first p (d # ds) = (if p d then ds else d # delete_first p ds)"

datatype dir = Asc | Desc

fun doc_le :: "string \<Rightarrow> dir \<Rightarrow> doc \<Rightarrow> doc \<Rightarrow> bool" where
  "doc_le f Asc a b = bson_le (get_field a f) (get_field b f)"
| "doc_le f Desc a b = bson_le (get_field b f) (get_field a f)"

text \<open>
  The server leaves the order among equal sort keys open; the model sorts by insertion,
  which keeps them in stored order.
\<close>

fun insert_by :: "(doc \<Rightarrow> doc \<Rightarrow> bool) \<Rightarrow> doc \<Rightarrow> doc list \<Rightarrow> doc list" where
  "insert_by le x [] = [x]"
| "insert_by le x (y # ys) = (if le x y then x # y # ys else y # insert_by le x ys)"

fun sort_docs :: "(doc \<Rightarrow> doc \<Rightarrow> bool) \<Rightarrow> doc list \<Rightarrow> doc list" where
  "sort_docs le [] = []"
| "sort_docs le (d # ds) = insert_by le d (sort_docs le ds)"

text \<open>
  The options of a \<^verbatim>\<open>find\<close> cursor. Whatever the order of the chained calls, the server
  sorts first, then skips, then limits, then projects.
\<close>

datatype projection = Include "string list" bool

record find_opts =
  proj :: "projection option"
  sort_key :: "(string \<times> dir) option"
  skip_n :: nat
  limit_n :: "nat option"

definition no_opts :: find_opts where
  "no_opts = \<lparr>proj = None, sort_key = None, skip_n = 0, limit_n = None\<rparr>"

fun project_doc :: "projection option \<Rightarrow> doc \<Rightarrow> doc" where
  "project_doc None d = d"
| "project_doc (Some (Include fs keep_id)) d =
     filter (\<lambda>(k, v). if k = ''_id'' then keep_id else k \<in> set fs) d"

fun sort_opt :: "(string \<times> dir) option \<Rightarrow> doc list \<Rightarrow> doc list" where
  "sort_opt None ds = ds"
| "sort_opt (Some (f, r)) ds = sort_docs (doc_le f r) ds"

fun limit_opt :: "nat option \<Rightarrow> doc list \<Rightarrow> doc list" where
  "limit_opt None ds = ds"
| "limit_opt (Some n) ds = take n ds"

definition find_docs :: "filter \<Rightarrow> find_opts \<Rightarrow> doc list \<Rightarrow> doc list" where
  "find_docs q opts ds =
     map (project_doc (proj opts))
       (limit_opt (limit_n opts) (drop (skip_n opts) (sort_opt (sort_key opts) (filter (matches q) ds))))"

subsection \<open>Aggregation expressions and stages\<close>

datatype error = DriverFault | NonNumeric string | DivideByZero

datatype expr =
    FieldPath string
  | Const bval
  | Divide expr expr
  | Floor expr
  | Multiply expr expr

text \<open>
  \<^verbatim>\<open>$divide\<close>, \<^verbatim>\<open>$floor\<close> and \<^verbatim>\<open>$multiply\<close> compute on numbers, give null when an
  operand is null or absent, and raise on any other kind of operand.
\<close>

fun divide_v :: "bval \<Rightarrow> bval \<Rightarrow> error + bval" where
  "divide_v (VNum a) (VNum b) = (if b = 0 then Inl DivideByZero else Inr (VNum (a / b)))"
| "divide_v VNull b = Inr VNull"
| "divide_v a VNull = Inr VNull"
| "divide_v a b = Inl (NonNumeric ''$divide'')"

fun floor_v :: "bval \<Rightarrow> error + bval" where
  "floor_v (VNum a) = Inr (VNum (of_int \<lfloor>a\<rfloor>))"
| "floor_v VNull = Inr VNull"
| "floor_v a = Inl (NonNumeric ''$floor'')"

fun multiply_v :: "bval \<Rightarrow> bval \<Rightarrow> error + bval" where
  "multiply_v (VNum a) (VNum b) = Inr (VNum (a * b))"
| "multiply_v VNull b = Inr VNull"
| "multiply_v (VNum a) VNull = Inr VNull"
| "multiply_v a b = Inl (NonNumeric ''$multiply'')"

fun eval_expr :: "expr \<Rightarrow> doc \<Rightarrow> error + bval" where
  "eval_expr (FieldPath f) d = Inr (get_field d f)"
| "eval_expr (Const v) d = Inr v"
| "eval_expr (Divide a b) d =
     (case eval_expr a d of Inl e \<Rightarrow> Inl e
      | Inr x \<Rightarrow> (case eval_expr b d of Inl e \<Rightarrow> Inl e | Inr y \<Rightarrow> divide_v x y))"
| "eval_expr (Floor a) d =
     (case eval_expr a d of Inl e \<Rightarrow> Inl e | Inr x \<Rightarrow> floor_v x)"
| "eval_expr (Multiply a b) d =
     (case eval_expr a d of Inl e \<Rightarrow> Inl e
      | Inr x \<Rightarrow> (case eval_expr b d of Inl e \<Rightarrow> Inl e | Inr y \<Rightarrow> multiply_v x y))"

fun mapE :: "('a \<Rightarrow> error + 'b) \<Rightarrow> 'a list \<Rightarrow> error + 'b list" where
  "mapE f [] = Inr []"
| "mapE f (x # xs) =
     (case f x of Inl e \<Rightarrow> Inl e
      | Inr y \<Rightarrow> (case mapE f xs of Inl e \<Rightarrow> Inl e | Inr ys \<Rightarrow> Inr (y # ys)))"

datatype accum = Avg expr | SumOf expr

fun nums :: "bval list \<Rightarrow> rat list" where
  "nums [] = []"
| "nums (VNum q # vs) = q # nums vs"
| "nums (v # vs) = nums vs"

text \<open>
  \<^verbatim>\<open>$avg\<close> and \<^verbatim>\<open>$sum\<close> pass over the values that are not numbers; the average of no
  number is null, the sum of no number is 0.
\<close>

fun accumulate :: "accum \<Rightarrow> doc list \<Rightarrow> error + bval" where
  "accumulate (Avg e) ds =
     (case mapE (eval_expr e) ds of Inl err \<Rightarrow> Inl err
      | Inr vs \<Rightarrow> Inr (if nums vs = [] then VNull
                       else VNum (sum_list (nums vs) / of_nat (length (nums vs)))))"
| "accumulate (SumOf e) ds =
     (case mapE (eval_expr e) ds of Inl err \<Rightarrow> Inl err
      | Inr vs \<Rightarrow> Inr (VNum (sum_list (nums vs))))"

text \<open>
  Grouping keeps one bucket per key, in the order the keys first appear (the server
  leaves that order open), each bucket holding its documents in input order.
\<close>

fun add_to_group :: "bval \<Rightarrow> doc \<Rightarrow> (bval \<times> doc list) list \<Rightarrow> (bval \<times> doc list) list" where
  "add_to_group k d [] = [(k, [d])]"
| "add_to_group k d ((k', ds) # gs) =
     (if k = k' then (k', ds @ [d]) # gs else (k', ds) # add_to_group k d gs)"

fun group_into :: "(bval \<times> doc) list \<Rightarrow> (bval \<times> doc list) list \<Rightarrow> (bval \<times> doc list) list" where
  "group_into [] gs = gs"
| "group_into ((k, d) # kds) gs = group_into kds (add_to_group k d gs)"

fun group_row :: "(string \<times> accum) list \<Rightarrow> bval \<times> doc list \<Rightarrow> error + doc" where
  "group_row accs (k, ds) =
     (case mapE (\<lambda>(n, a). case accumulate a ds of Inl e \<Rightarrow> Inl e | Inr v \<Rightarrow> Inr (n, v)) accs of
        Inl e \<Rightarrow> Inl e
      | Inr fs \<Rightarrow> Inr ((''_id'', k) # fs))"

datatype stage =
    Group expr "(string \<times> accum) list"
  | Sort string dir
  | Limit nat
  | Project "(string \<times> expr) list"

text \<open>\<^verbatim>\<open>$project\<close> keeps \<^verbatim>\<open>_id\<close> when the document has one and adds the computed fields.\<close>

fun project_row :: "(string \<times> expr) list \<Rightarrow> doc \<Rightarrow> error + doc" where
  "project_row fs d =
     (case mapE (\<lambda>(n, e). case eval_expr e d of Inl err \<Rightarrow> Inl err | Inr v \<Rightarrow> Inr (n, v)) fs of
        Inl err \<Rightarrow> Inl err
      | Inr cs \<Rightarrow> Inr (filter (\<lambda>(k, v). k = ''_id'') d @ cs))"

fun run_stage :: "stage \<Rightarrow> doc list \<Rightarrow> error + doc list" where
  "run_stage (Group key accs) ds =
     (case mapE (eval_expr key) ds of Inl e \<Rightarrow> Inl e
      | Inr ks \<Rightarrow> mapE (group_row accs) (group_into (zip ks ds) []))"
| "run_stage (Sort f r) ds = Inr (sort_docs (doc_le f r) ds)"
| "run_stage (Limit n) ds = Inr (take n ds)"
| "run_stage (Project fs) ds = mapE (project_row fs) ds"

fun run_pipeline :: "stage list \<Rightarrow> doc list \<Rightarrow> error + doc list" where
  "run_pipeline [] ds = Inr ds"
| "run_pipeline (s # ss) ds =
     (case run_stage s ds of Inl e \<Rightarrow> Inl e | Inr ds' \<Rightarrow> run_pipeline ss ds')"

subsection \<open>The collection and the driver calls\<close>

text \<open>
  The store is the one collection the script opens, \<^verbatim>\<open>books\<close> of the database
  \<^verbatim>\<open>plp_bookstore\<close>: its documents in stored order, the key patterns of its indexes, and
  whether the client is connected.
\<close>

type_synonym keyspec = "(string \<times> dir) list"

record store =
  docs :: "doc list"
  indexes :: "keyspec list"
  is_open :: bool

datatype cmd =
    Connect string
  | Find filter find_opts
  | FindOne filter
  | UpdateOne filter update
  | DeleteOne filter
  | Aggregate "stage list"
  | CreateIndex keyspec
  | Explain filter
  | Close

datatype reply =
    RAck
  | RDocs "doc list"
  | RDoc "doc option"
  | RMatched nat
  | RDeleted nat
  | RName string
  | RStats nat

fun dir_name :: "dir \<Rightarrow> string" where
  "dir_name Asc = ''1''"
| "dir_name Desc = ''-1''"

fun index_name :: "keyspec \<Rightarrow> string" where
  "index_name [] = []"
| "index_name [(f, r)] = f @ ''_'' @ dir_name r"
| "index_name ((f, r) # ks) = f @ ''_'' @ dir_name r @ ''_'' @ index_name ks"

text \<open>
  What the server does with one command. \<^verbatim>\<open>updateOne\<close> and \<^verbatim>\<open>deleteOne\<close> act on the
  first matching document in stored order and report how many they matched; matching
  nothing is not an error. \<^verbatim>\<open>createIndex\<close> on a key pattern the collection already
  indexes changes nothing. The explain reply is reduced to the number of documents
  returned. Only a pipeline can fail on the data.
\<close>

fun exec :: "cmd \<Rightarrow> store \<Rightarrow> error + reply \<times> store" where
  "exec (Connect u) s = Inr (RAck, s\<lparr>is_open := True\<rparr>)"
| "exec (Find q opts) s = Inr (RDocs (find_docs q opts (docs s)), s)"
| "exec (FindOne q) s = Inr (RDoc (List.find (matches q) (docs s)), s)"
| "exec (UpdateOne q u) s =
     Inr (RMatched (if list_ex (matches q) (docs s) then 1 else 0),
          s\<lparr>docs := update_first (matches q) (apply_update u) (docs s)\<rparr>)"
| "exec (DeleteOne q) s =
     Inr (RDeleted (if list_ex (matches q) (docs s) then 1 else 0),
          s\<lparr>docs := delete_first (matches q) (docs s)\<rparr>)"
| "exec (Aggregate p) s =
     (case run_pipeline p (docs s) of Inl e \<Rightarrow> Inl e | Inr rows \<Rightarrow> Inr (RDocs rows, s))"
| "exec (CreateIndex k) s =
     Inr (RName (index_name k),
          if k \<in> set (indexes s) then s else s\<lparr>indexes := indexes s @ [k]\<rparr>)"
| "exec (Explain q) s = Inr (RStats (length (filter (matches q) (docs s))), s)"
| "exec Close s = Inr (RAck, s\<lparr>is_open := False\<rparr>)"

section \<open>The script\<close>

text \<open>
  The world of a run: the collection, the console, and the driver calls issued so far.
  The environment \<open>env\<close> says which driver calls fail for a reason outside the data
  (connectivity, authorization): \<open>env n\<close> holds when the call issued after \<open>n\<close>
  earlier ones throws. A call that throws leaves the collection as it was.
\<close>

datatype out = Line string | Shown reply | ErrLine error | Uncaught error

record world =
  db :: store
  console :: "out list"
  issued :: "cmd list"

type_synonym env = "nat \<Rightarrow> bool"

definition await :: "env \<Rightarrow> cmd \<Rightarrow> world \<Rightarrow> (error + reply) \<times> world" where
  "await env c w =
     (let w' = w\<lparr>issued := issued w @ [c]\<rparr> in
      if env (length (issued w)) then (Inl DriverFault, w')
      else (case exec c (db w) of
              Inl e \<Rightarrow> (Inl e, w')
            | Inr (r, s) \<Rightarrow> (Inr r, w'\<lparr>db := s\<rparr>)))"

text \<open>
  A statement of the script is \<^verbatim>\<open>console.log(text)\<close>, \<^verbatim>\<open>await call\<close> with the result
  dropped, or \<^verbatim>\<open>console.log(await call)\<close>. A block runs its statements in order and
  stops at the first one that throws.
\<close>

datatype action = Say string | Await cmd | Print cmd

fun run_action :: "env \<Rightarrow> action \<Rightarrow> world \<Rightarrow> error option \<times> world" where
  "run_action env (Say l) w = (None, w\<lparr>console := console w @ [Line l]\<rparr>)"
| "run_action env (Await c) w =
     (case await env c w of (Inl e, w') \<Rightarrow> (Some e, w') | (Inr r, w') \<Rightarrow> (None, w'))"
| "run_action env (Print c) w =
     (case await env c w of
        (Inl e, w') \<Rightarrow> (Some e, w')
      | (Inr r, w') \<Rightarrow> (None, w'\<lparr>console := console w' @ [Shown r]\<rparr>))"

fun run_actions :: "env \<Rightarrow> action list \<Rightarrow> world \<Rightarrow> error option \<times> world" where
  "run_actions env [] w = (None, w)"
| "run_actions env (a # as) w =
     (case run_action env a w of
        (Some e, w') \<Rightarrow> (Some e, w')
      | (None, w') \<Rightarrow> run_actions env as w')"

text \<open>
  The constants and the statements of \<^verbatim>\<open>runQueries\<close>, numbered as the specification
  numbers them. The labels are the source's without line breaks and pictographs, a keycap
  digit being written as the digit.
\<close>

definition uri :: string where
  "uri = ''mongodb://localhost:27017''"

definition page :: nat where
  "page = 2"

definition pageSize :: nat where
  "pageSize = 5"

definition skip :: nat where
  "skip = (page - 1) * pageSize"

definition connect_step :: "action list" where
  "connect_step = [Await (Connect uri), Say ''Connected to MongoDB'']"

definition step1 :: "action list" where
  "step1 = [Say ''1 Books in the Fiction genre:'',
            Print (Find [(''genre'', Eq (VStr ''Fiction''))] no_opts)]"

definition step2 :: "action list" where
  "step2 = [Say ''2 Books published after 2000:'',
            Print (Find [(''published_year'', Gt (VNum 2000))] no_opts)]"

definition step3 :: "action list" where
  "step3 = [Say ''3 Books by George Orwell:'',
            Print (Find [(''author'', Eq (VStr ''George Orwell''))] no_opts)]"

definition step4 :: "action list" where
  "step4 = [Say ''4 Updating price of '1984'...'',
            Await (UpdateOne [(''title'', Eq (VStr ''1984''))] (Set [(''price'', VNum (1599 / 100))])),
            Print (FindOne [(''title'', Eq (VStr ''1984''))])]"

definition step5 :: "action list" where
  "step5 = [Say ''5 Deleting 'Moby Dick'...'',
            Await (DeleteOne [(''title'', Eq (VStr ''Moby Dick''))]),
            Say ''Deleted 'Moby Dick' successfully'']"

definition step6 :: "action list" where
  "step6 = [Say ''6 In-stock books published after 2010:'',
            Print (Find [(''in_stock'', Eq (VBool True)), (''published_year'', Gt (VNum 2010))] no_opts)]"

definition step7 :: "action list" where
  "step7 = [Say ''7 Books showing only title, author, and price:'',
            Print (Find [] (no_opts\<lparr>proj := Some (Include [''title'', ''author'', ''price''] False)\<rparr>))]"

definition step8 :: "action list" where
  "step8 = [Say ''8 Books sorted by price (ascending):'',
            Print (Find [] (no_opts\<lparr>sort_key := Some (''price'', Asc), limit_n := Some 5\<rparr>))]"

definition step9 :: "action list" where
  "step9 = [Say ''9 Books sorted by price (descending):'',
            Print (Find [] (no_opts\<lparr>sort_key := Some (''price'', Desc), limit_n := Some 5\<rparr>))]"

definition step10 :: "action list" where
  "step10 = [Say ''10 Page 2 (5 books per page):'',
             Print (Find [] (no_opts\<lparr>skip_n := skip, limit_n := Some pageSize\<rparr>))]"

definition genre_pipeline :: "stage list" where
  "genre_pipeline = [Group (FieldPath ''genre'') [(''averagePrice'', Avg (FieldPath ''price''))]]"

definition step11 :: "action list" where
  "step11 = [Say ''Average price of books by genre:'', Print (Aggregate genre_pipeline)]"

definition author_pipeline :: "stage list" where
  "author_pipeline =
     [Group (FieldPath ''author'') [(''bookCount'', SumOf (Const (VNum 1)))],
      Sort ''bookCount'' Desc,
      Limit 1]"

definition step12 :: "action list" where
  "step12 = [Say ''Author with the most books:'', Print (Aggregate author_pipeline)]"

definition decade_expr :: expr where
  "decade_expr =
     Multiply (Floor (Divide (FieldPath ''published_year'') (Const (VNum 10)))) (Const (VNum 10))"

definition decade_pipeline :: "stage list" where
  "decade_pipeline =
     [Project [(''decade'', decade_expr)],
      Group (FieldPath ''decade'') [(''count'', SumOf (Const (VNum 1)))],
      Sort ''_id'' Asc]"

definition step13 :: "action list" where
  "step13 = [Say ''Books grouped by publication decade:'', Print (Aggregate decade_pipeline)]"

definition step14 :: "action list" where
  "step14 = [Say ''Creating index on title...'',
             Await (CreateIndex [(''title'', Asc)])]"

definition step15 :: "action list" where
  "step15 = [Say ''Creating compound index on author + published_year...'',
             Await (CreateIndex [(''author'', Asc), (''published_year'', Asc)])]"

definition step16 :: "action list" where
  "step16 = [Say ''Explain output for indexed query (find by title):'',
             Print (Explain [(''title'', Eq (VStr ''1984''))])]"

definition try_block :: "action list" where
  "try_block = connect_step @ step1 @ step2 @ step3 @ step4 @ step5 @ step6 @ step7 @ step8
     @ step9 @ step10 @ step11 @ step12 @ step13 @ step14 @ step15 @ step16"

definition catch_block :: "error \<Rightarrow> world \<Rightarrow> world" where
  "catch_block e w = w\<lparr>console := console w @ [ErrLine e]\<rparr>"

definition finally_block :: "action list" where
  "finally_block = [Await Close, Say ''Connection closed'']"

text \<open>
  \<^verbatim>\<open>runQueries\<close>: the try block; the handler when it threw; the finally block in both
  cases. The result carries an error only when the finally block itself threw, and the
  last line of the file, \<^verbatim>\<open>runQueries().catch(console.error)\<close>, prints that one.
\<close>

definition runQueries :: "env \<Rightarrow> world \<Rightarrow> error option \<times> world" where
  "runQueries env w =
     (case run_actions env try_block w of
        (None, w') \<Rightarrow> run_actions env finally_block w'
      | (Some e, w') \<Rightarrow> run_actions env finally_block (catch_block e w'))"

definition main :: "env \<Rightarrow> world \<Rightarrow> world" where
  "main env w =
     (case runQueries env w of
        (None, w') \<Rightarrow> w'
      | (Some e, w') \<Rightarrow> w'\<lparr>console := console w' @ [Uncaught e]\<rparr>)"

section \<open>Notions used to state the properties\<close>

text \<open>The driver calls a block issues when nothing throws, in order.\<close>

fun calls_of :: "action list \<Rightarrow> cmd list" where
  "calls_of [] = []"
| "calls_of (Say l # as) = calls_of as"
| "calls_of (Await c # as) = c # calls_of as"
| "calls_of (Print c # as) = c # calls_of as"

text \<open>The errors the catch handler has printed, and the updates among issued calls.\<close>

fun err_lines :: "out list \<Rightarrow> error list" where
  "err_lines [] = []"
| "err_lines (ErrLine e # os) = e # err_lines os"
| "err_lines (x # os) = err_lines os"

fun updates_of :: "cmd list \<Rightarrow> (filter \<times> update) list" where
  "updates_of [] = []"
| "updates_of (UpdateOne q u # cs) = (q, u) # updates_of cs"
| "updates_of (c # cs) = updates_of cs"

text \<open>
  The decade of a document as the specification words it: \<open>floor(published_year/10)*10\<close>
  for a number, the null bucket for a year that is null or absent.
\<close>

definition decade_spec :: "doc \<Rightarrow> bval" where
  "decade_spec d =
     (case get_field d ''published_year'' of
        VNum y \<Rightarrow> VNum (of_int (\<lfloor>y / 10\<rfloor> * 10))
      | _ \<Rightarrow> VNull)"

fun year_ok :: "bval \<Rightarrow> bool" where
  "year_ok (VNum y) = True"
| "year_ok VNull = True"
| "year_ok v = False"

fun count_of :: "doc \<Rightarrow> rat" where
  "count_of r = (case get_field r ''count'' of VNum n \<Rightarrow> n | _ \<Rightarrow> 0)"

text \<open>The two seeded documents of the end-to-end scenario, before the script connects.\<close>

definition seed :: world where
  "seed =
     \<lparr>db = \<lparr>docs = [[(''title'', VStr ''1984''), (''price'', VNum 10)],
                     [(''title'', VStr ''Moby Dick'')]],
             indexes = [], is_open = False\<rparr>,
      console = [], issued = []\<rparr>"

section \<open>Running a block\<close>

lemma run_actions_append:
  "run_actions env (xs @ ys) w =
     (case run_actions env xs w of
        (Some e, w') \<Rightarrow> (Some e, w')
      | (None, w') \<Rightarrow> run_actions env ys w')"
  by (induction xs arbitrary: w) (auto split: prod.splits option.splits)


lemma err_lines_append: "err_lines (xs @ ys) = err_lines xs @ err_lines ys"
  by (induction xs rule: err_lines.induct) auto


lemma await_console: "console (snd (await env c w)) = console w"
  by (auto simp: await_def Let_def split: sum.splits prod.splits)


lemma await_ok:
  "\<not> env (length (issued w)) \<Longrightarrow> exec c (db w) = Inr (r, s) \<Longrightarrow>
     await env c w = (Inr r, w\<lparr>db := s, issued := issued w @ [c]\<rparr>)"
  by (simp add: await_def Let_def)

lemma run_action_err_lines:
  "err_lines (console (snd (run_action env a w))) = err_lines (console w)"
proof (cases a)
  case (Say l) then show ?thesis by (simp add: err_lines_append)
next
  case (Await c)
  then show ?thesis
    using await_console [of env c w]
    by (auto split: prod.splits sum.splits)
next
  case (Print c)
  then show ?thesis
    using await_console [of env c w]
    by (auto simp: err_lines_append split: prod.splits sum.splits)
qed

lemma run_actions_err_lines:
  "err_lines (console (snd (run_actions env as w))) = err_lines (console w)"
proof (induction as arbitrary: w)
  case Nil then show ?case by simp
next
  case (Cons a as)
  show ?case
  proof (cases "run_action env a w")
    case (Pair r w')
    with run_action_err_lines [of env a w] have e: "err_lines (console w') = err_lines (console w)"
      by simp
    show ?thesis
    proof (cases r)
      case None with Pair e Cons.IH [of w'] show ?thesis by simp
    next
      case (Some x) with Pair e show ?thesis by simp
    qed
  qed
qed






lemma run_finally:
  "run_actions env finally_block w =
     (if env (length (issued w)) then (Some DriverFault, w\<lparr>issued := issued w @ [Close]\<rparr>)
      else (None, \<lparr>db = (db w)\<lparr>is_open := False\<rparr>,
                   console = console w @ [Line ''Connection closed''],
                   issued = issued w @ [Close]\<rparr>))"
  by (simp add: finally_block_def await_def Let_def)

lemmas step_defs = connect_step_def step1_def step2_def step3_def step4_def step5_def step6_def
  step7_def step8_def step9_def step10_def step11_def step12_def step13_def step14_def step15_def
  step16_def


lemma runQueries_err_lines:
  "err_lines (console (snd (runQueries env w))) =
     err_lines (console w) @ (case fst (run_actions env try_block w) of None \<Rightarrow> [] | Some e \<Rightarrow> [e])"
  using run_actions_err_lines [of env try_block w]
  by (cases "run_actions env try_block w")
     (auto simp: runQueries_def run_finally catch_block_def err_lines_append split: option.splits)

subsection \<open>Evaluating on the seeded collection\<close>

lemma project_none: "map (project_doc None) ds = ds"
  by (induction ds) auto

lemma find_docs_plain: "find_docs q no_opts ds = filter (matches q) ds"
  by (simp add: find_docs_def no_opts_def project_none)


section \<open>Sorting and reading\<close>

lemma bson_le_total: "bson_le a b \<or> bson_le b a"
  by (cases a; cases b) auto

lemma bson_le_trans: "bson_le a b \<Longrightarrow> bson_le b c \<Longrightarrow> bson_le a c"
  by (cases a; cases b; cases c) auto

lemma doc_le_total: "doc_le f r a b \<or> doc_le f r b a"
  by (cases r) (auto simp: bson_le_total)

lemma doc_le_trans: "doc_le f r a b \<Longrightarrow> doc_le f r b c \<Longrightarrow> doc_le f r a c"
  by (cases r) (auto intro: bson_le_trans)

lemma set_insert_by: "set (insert_by le x xs) = insert x (set xs)"
  by (induction xs) auto

lemma length_insert_by: "length (insert_by le x xs) = Suc (length xs)"
  by (induction xs) auto

lemma length_sort_docs: "length (sort_docs le ds) = length ds"
  by (induction ds) (auto simp: length_insert_by)

lemma set_sort_docs: "set (sort_docs le ds) = set ds"
  by (induction ds) (auto simp: set_insert_by)

lemma sorted_insert_by:
  assumes tot: "\<And>a b. le a b \<or> le b a" and tr: "\<And>a b c. le a b \<Longrightarrow> le b c \<Longrightarrow> le a c"
  shows "sorted_wrt le xs \<Longrightarrow> sorted_wrt le (insert_by le x xs)"
proof (induction xs)
  case Nil then show ?case by simp
next
  case (Cons y ys)
  show ?case
  proof (cases "le x y")
    case True
    with Cons.prems tr show ?thesis by auto
  next
    case False
    with tot have "le y x" by blast
    with Cons False show ?thesis by (auto simp: set_insert_by)
  qed
qed

lemma sorted_sort_docs:
  assumes tot: "\<And>a b. le a b \<or> le b a" and tr: "\<And>a b c. le a b \<Longrightarrow> le b c \<Longrightarrow> le a c"
  shows "sorted_wrt le (sort_docs le ds)"
proof (induction ds)
  case Nil show ?case by simp
next
  case (Cons d ds)
  from sorted_insert_by [of le, OF tot tr Cons.IH] show ?case by simp
qed

lemma sorted_by_field: "sorted_wrt (doc_le f r) (sort_docs (doc_le f r) ds)"
  by (rule sorted_sort_docs) (auto simp: doc_le_total intro: doc_le_trans)

lemma sorted_wrt_take: "sorted_wrt P xs \<Longrightarrow> sorted_wrt P (take n xs)"
  by (metis append_take_drop_id sorted_wrt_append)

lemma matches_all: "filter (matches []) ds = ds"
  by (simp add: matches_def)

lemma run_say_print:
  "\<not> env (length (issued w)) \<Longrightarrow> exec c (db w) = Inr (r, s) \<Longrightarrow>
     run_actions env [Say l, Print c] w =
       (None, \<lparr>db = s, console = console w @ [Line l, Shown r], issued = issued w @ [c]\<rparr>)"
  by (simp add: await_def)

lemma run_say_await:
  "\<not> env (length (issued w)) \<Longrightarrow> exec c (db w) = Inr (r, s) \<Longrightarrow>
     run_actions env [Say l, Await c] w =
       (None, \<lparr>db = s, console = console w @ [Line l], issued = issued w @ [c]\<rparr>)"
  by (simp add: await_def)

section \<open>Updating and deleting one document\<close>

lemma update_first_cases:
  "update_first p u ds = ds \<or>
   (\<exists>pre d post. ds = pre @ d # post \<and> p d \<and> update_first p u ds = pre @ u d # post)"
proof (induction ds)
  case Nil show ?case by simp
next
  case (Cons a ds)
  show ?case
  proof (cases "p a")
    case True
    then have "a # ds = [] @ a # ds \<and> p a \<and> update_first p u (a # ds) = [] @ u a # ds" by simp
    then show ?thesis by blast
  next
    case False
    from Cons.IH show ?thesis
    proof
      assume "update_first p u ds = ds"
      with False show ?thesis by simp
    next
      assume "\<exists>pre d post. ds = pre @ d # post \<and> p d \<and> update_first p u ds = pre @ u d # post"
      then obtain pre d post where "ds = pre @ d # post" "p d" "update_first p u ds = pre @ u d # post"
        by blast
      with False have "a # ds = (a # pre) @ d # post \<and> p d
          \<and> update_first p u (a # ds) = (a # pre) @ u d # post" by simp
      then show ?thesis by blast
    qed
  qed
qed

lemma delete_first_cases:
  "delete_first p ds = ds \<or>
   (\<exists>pre d post. ds = pre @ d # post \<and> p d \<and> delete_first p ds = pre @ post)"
proof (induction ds)
  case Nil show ?case by simp
next
  case (Cons a ds)
  show ?case
  proof (cases "p a")
    case True
    then have "a # ds = [] @ a # ds \<and> p a \<and> delete_first p (a # ds) = [] @ ds" by simp
    then show ?thesis by blast
  next
    case False
    from Cons.IH show ?thesis
    proof
      assume "delete_first p ds = ds"
      with False show ?thesis by simp
    next
      assume "\<exists>pre d post. ds = pre @ d # post \<and> p d \<and> delete_first p ds = pre @ post"
      then obtain pre d post where "ds = pre @ d # post" "p d" "delete_first p ds = pre @ post"
        by blast
      with False have "a # ds = (a # pre) @ d # post \<and> p d
          \<and> delete_first p (a # ds) = (a # pre) @ post" by simp
      then show ?thesis by blast
    qed
  qed
qed

lemma update_first_no_match: "\<not> list_ex p ds \<Longrightarrow> update_first p u ds = ds"
  by (induction ds) auto

lemma delete_first_no_match: "\<not> list_ex p ds \<Longrightarrow> delete_first p ds = ds"
  by (induction ds) auto

lemma find_no_match: "\<not> list_ex p ds \<Longrightarrow> List.find p ds = None"
  by (induction ds) auto

lemma set_field_others:
  "filter (\<lambda>(k, v). k \<noteq> f) (set_field f x d) = filter (\<lambda>(k, v). k \<noteq> f) d"
  by (induction d) auto

lemma get_set_field: "get_field (set_field f x d) f = x"
  by (induction d) (auto simp: get_field_def)

lemma get_set_field_other: "g \<noteq> f \<Longrightarrow> get_field (set_field f x d) g = get_field d g"
  by (induction d) (auto simp: get_field_def)

lemma matches_title: "matches [(''title'', Eq v)] d = (get_field d ''title'' = v)"
  by (simp add: matches_def)

lemma step4_docs:
  "docs (db (snd (run_actions env step4 w))) = docs (db w) \<or>
   docs (db (snd (run_actions env step4 w))) =
     update_first (matches [(''title'', Eq (VStr ''1984''))]) (set_field ''price'' (VNum (1599 / 100)))
       (docs (db w))"
proof -
  have "apply_update (Set [(''price'', VNum (1599 / 100))]) = set_field ''price'' (VNum (1599 / 100))"
    by (intro ext) simp
  then show ?thesis
    by (simp add: step4_def await_def Let_def)
qed

lemma step5_docs:
  "docs (db (snd (run_actions env step5 w))) = docs (db w) \<or>
   docs (db (snd (run_actions env step5 w))) =
     delete_first (matches [(''title'', Eq (VStr ''Moby Dick''))]) (docs (db w))"
  by (simp add: step5_def await_def Let_def)

lemma step45_indexes:
  "indexes (db (snd (run_actions env step4 w))) = indexes (db w)"
  "indexes (db (snd (run_actions env step5 w))) = indexes (db w)"
  by (simp_all add: step4_def step5_def await_def Let_def)

lemma run_step4_step5:
  "run_actions (\<lambda>n. False) (step4 @ step5) w =
     (None,
      \<lparr>db = (db w)\<lparr>docs :=
          delete_first (matches [(''title'', Eq (VStr ''Moby Dick''))])
            (update_first (matches [(''title'', Eq (VStr ''1984''))])
               (set_field ''price'' (VNum (1599 / 100))) (docs (db w)))\<rparr>,
       console = console w @
         [Line ''4 Updating price of '1984'...'',
          Shown (RDoc (List.find (matches [(''title'', Eq (VStr ''1984''))])
            (update_first (matches [(''title'', Eq (VStr ''1984''))])
               (set_field ''price'' (VNum (1599 / 100))) (docs (db w))))),
          Line ''5 Deleting 'Moby Dick'...'',
          Line ''Deleted 'Moby Dick' successfully''],
       issued = issued w @
         [UpdateOne [(''title'', Eq (VStr ''1984''))] (Set [(''price'', VNum (1599 / 100))]),
          FindOne [(''title'', Eq (VStr ''1984''))],
          DeleteOne [(''title'', Eq (VStr ''Moby Dick''))]]\<rparr>)"
proof -
  have "apply_update (Set [(''price'', VNum (1599 / 100))]) = set_field ''price'' (VNum (1599 / 100))"
    by (intro ext) simp
  then show ?thesis
    by (simp add: step4_def step5_def await_def Let_def)
qed

section \<open>Total maps, index creation\<close>

lemma mapE_total: "(\<And>x. x \<in> set xs \<Longrightarrow> f x = Inr (g x)) \<Longrightarrow> mapE f xs = Inr (map g xs)"
  by (induction xs) auto

lemma count_after_create:
  "count_list (if k \<in> set xs then xs else xs @ [k]) k = max 1 (count_list xs k)"
  using count_list_0_iff [of xs k] by (cases "k \<in> set xs") (simp_all add: max_def)

lemma create_index_once:
  "run_actions (\<lambda>n. False) [Say l, Await (CreateIndex k)] w =
     (None,
      \<lparr>db = (db w)\<lparr>indexes := (if k \<in> set (indexes (db w)) then indexes (db w) else indexes (db w) @ [k])\<rparr>,
       console = console w @ [Line l],
       issued = issued w @ [CreateIndex k]\<rparr>)"
  by (simp add: await_def Let_def)

lemma create_index_twice:
  "run_actions (\<lambda>n. False) ([Say l, Await (CreateIndex k)] @ [Say l, Await (CreateIndex k)]) w =
     (None,
      \<lparr>db = (db w)\<lparr>indexes := (if k \<in> set (indexes (db w)) then indexes (db w) else indexes (db w) @ [k])\<rparr>,
       console = console w @ [Line l, Line l],
       issued = issued w @ [CreateIndex k, CreateIndex k]\<rparr>)"
  by (simp add: await_def Let_def)

section \<open>Grouping and the decade pipeline\<close>

subsection \<open>Grouping\<close>

lemma add_to_group_sizes:
  "sum_list (map (\<lambda>kg. length (snd kg)) (add_to_group k d gs))
     = Suc (sum_list (map (\<lambda>kg. length (snd kg)) gs))"
  by (induction gs) auto

lemma group_into_sizes:
  "sum_list (map (\<lambda>kg. length (snd kg)) (group_into kds gs))
     = length kds + sum_list (map (\<lambda>kg. length (snd kg)) gs)"
  by (induction kds arbitrary: gs) (auto simp: add_to_group_sizes)

lemma add_to_group_keys:
  "map fst (add_to_group k d gs) = (if k \<in> fst ` set gs then map fst gs else map fst gs @ [k])"
  by (induction gs) (force simp: image_iff)+

lemma group_into_distinct:
  "distinct (map fst gs) \<Longrightarrow> distinct (map fst (group_into kds gs))"
proof (induction kds arbitrary: gs)
  case Nil then show ?case by simp
next
  case (Cons kd kds)
  obtain k d where kd: "kd = (k, d)" by (cases kd)
  from Cons.prems have "distinct (map fst (add_to_group k d gs))"
    by (auto simp: add_to_group_keys)
  from Cons.IH [OF this] kd show ?case by simp
qed

lemma add_to_group_lookup:
  "map_of (add_to_group k d gs) k' =
     (if k' = k then Some (case map_of gs k of None \<Rightarrow> [d] | Some g \<Rightarrow> g @ [d])
      else map_of gs k')"
  by (induction gs) auto

lemma group_into_lookup:
  "map_of (group_into kds gs) k =
     (case map_of gs k of
        None \<Rightarrow> (if filter (\<lambda>kd. fst kd = k) kds = [] then None
                 else Some (map snd (filter (\<lambda>kd. fst kd = k) kds)))
      | Some g \<Rightarrow> Some (g @ map snd (filter (\<lambda>kd. fst kd = k) kds)))"
proof (induction kds arbitrary: gs)
  case Nil then show ?case by (simp split: option.splits)
next
  case (Cons kd kds)
  obtain k' d where kd: "kd = (k', d)" by (cases kd)
  show ?case
    unfolding kd group_into.simps Cons.IH add_to_group_lookup
    by (auto split: option.splits)
qed

lemma filter_zip_keys:
  "length (filter (\<lambda>kd. fst kd = k) (zip (map f ds) (map g ds))) = length (filter (\<lambda>d. f d = k) ds)"
  by (induction ds) auto

lemma group_member_row:
  assumes "d \<in> set ds"
  shows "(f d, map snd (filter (\<lambda>kd. fst kd = f d) (zip (map f ds) (map g ds))))
           \<in> set (group_into (zip (map f ds) (map g ds)) [])"
proof -
  let ?kds = "zip (map f ds) (map g ds)"
  from assms have "(f d, g d) \<in> set ?kds"
    by (induction ds) auto
  then have "filter (\<lambda>kd. fst kd = f d) ?kds \<noteq> []"
    by (force simp: filter_empty_conv)
  then have "map_of (group_into ?kds []) (f d) = Some (map snd (filter (\<lambda>kd. fst kd = f d) ?kds))"
    by (simp add: group_into_lookup)
  then show ?thesis by (rule map_of_SomeD)
qed

subsection \<open>Sorting keeps the rows\<close>

lemma sum_insert_by: "sum_list (map h (insert_by le x xs)) = h x + sum_list (map h xs)"
  for h :: "doc \<Rightarrow> rat"
  by (induction xs) auto

lemma sum_sort_docs: "sum_list (map h (sort_docs le xs)) = sum_list (map h xs)"
  for h :: "doc \<Rightarrow> rat"
  by (induction xs) (auto simp: sum_insert_by)

lemma distinct_insert_by:
  "distinct (map h (insert_by le x xs)) = (h x \<notin> h ` set xs \<and> distinct (map h xs))"
  by (induction xs) (auto simp: set_insert_by)

lemma distinct_sort_docs: "distinct (map h (sort_docs le xs)) = distinct (map h xs)"
  by (induction xs) (auto simp: distinct_insert_by set_sort_docs)

subsection \<open>The decade pipeline\<close>

lemma eval_decade:
  "year_ok (get_field d ''published_year'') \<Longrightarrow> eval_expr decade_expr d = Inr (decade_spec d)"
  by (cases "get_field d ''published_year''") (auto simp: decade_expr_def decade_spec_def)

lemma eval_decade_fails:
  "\<not> year_ok (get_field d ''published_year'') \<Longrightarrow>
     eval_expr decade_expr d = Inl (NonNumeric ''$divide'')"
  by (cases "get_field d ''published_year''") (auto simp: decade_expr_def)

lemma get_field_id_part: "f \<noteq> ''_id'' \<Longrightarrow> map_of (filter (\<lambda>(k, v). k = ''_id'') d) f = None"
  by (induction d) auto

lemma get_field_projected:
  "get_field (filter (\<lambda>(k, v). k = ''_id'') d @ [(''decade'', x)]) ''decade'' = x"
  by (simp add: get_field_def map_add_def get_field_id_part)

lemma project_decade:
  assumes "\<forall>d \<in> set ds. year_ok (get_field d ''published_year'')"
  shows "run_stage (Project [(''decade'', decade_expr)]) ds
           = Inr (map (\<lambda>d. filter (\<lambda>(k, v). k = ''_id'') d @ [(''decade'', decade_spec d)]) ds)"
proof -
  have "project_row [(''decade'', decade_expr)] d
      = Inr (filter (\<lambda>(k, v). k = ''_id'') d @ [(''decade'', decade_spec d)])"
    if "d \<in> set ds" for d
    using that assms by (simp add: eval_decade)
  then show ?thesis
    using mapE_total [of ds "project_row [(''decade'', decade_expr)]"] by simp
qed

lemma count_accumulate:
  "accumulate (SumOf (Const (VNum 1))) g = Inr (VNum (of_nat (length g)))"
proof -
  have "mapE (eval_expr (Const (VNum 1))) g = Inr (map (\<lambda>d. VNum 1) g)"
    by (rule mapE_total) simp
  moreover have "sum_list (nums (map (\<lambda>d. VNum 1) g)) = of_nat (length g)"
    by (induction g) auto
  ultimately show ?thesis by simp
qed

lemma count_rows:
  "mapE (group_row [(''count'', SumOf (Const (VNum 1)))]) gs
     = Inr (map (\<lambda>kg. [(''_id'', fst kg), (''count'', VNum (of_nat (length (snd kg))))]) gs)"
proof (rule mapE_total)
  fix kg :: "bval \<times> doc list"
  show "group_row [(''count'', SumOf (Const (VNum 1)))] kg
      = Inr [(''_id'', fst kg), (''count'', VNum (of_nat (length (snd kg))))]"
    by (cases kg) (simp add: count_accumulate del: accumulate.simps)
qed

lemma decade_pipeline_rows:
  assumes "\<forall>d \<in> set ds. year_ok (get_field d ''published_year'')"
  shows "run_pipeline decade_pipeline ds =
     Inr (sort_docs (doc_le ''_id'' Asc)
       (map (\<lambda>kg. [(''_id'', fst kg), (''count'', VNum (of_nat (length (snd kg))))])
         (group_into
            (zip (map decade_spec ds)
                 (map (\<lambda>d. filter (\<lambda>(k, v). k = ''_id'') d @ [(''decade'', decade_spec d)]) ds))
            [])))"
proof -
  let ?prow = "\<lambda>d. filter (\<lambda>(k, v). k = ''_id'') d @ [(''decade'', decade_spec d)]"
  have keys: "mapE (eval_expr (FieldPath ''decade'')) (map ?prow ds) = Inr (map decade_spec ds)"
    using mapE_total [of "map ?prow ds" "eval_expr (FieldPath ''decade'')"
        "\<lambda>r. get_field r ''decade''"]
    by (simp add: get_field_projected comp_def)
  show ?thesis
    unfolding decade_pipeline_def
    by (simp add: project_decade [OF assms] keys count_rows del: run_stage.simps(4) group_row.simps)
qed

lemma decade_pipeline_fails:
  assumes "d \<in> set ds" "\<not> year_ok (get_field d ''published_year'')"
  shows "\<exists>e. run_pipeline decade_pipeline ds = Inl e"
proof -
  have "\<exists>e. mapE (project_row [(''decade'', decade_expr)]) ds = Inl e"
    using assms
  proof (induction ds)
    case Nil then show ?case by simp
  next
    case (Cons a ds)
    then show ?case
      by (cases "year_ok (get_field a ''published_year'')")
         (auto simp: eval_decade eval_decade_fails split: sum.splits)
  qed
  then show ?thesis by (auto simp: decade_pipeline_def)
qed

lemma floor_numeral_div: "\<lfloor>numeral a / numeral b :: rat\<rfloor> = numeral a div numeral b"
  using floor_divide_of_int_eq [of "numeral a" "numeral b", where ?'a = rat] by simp

lemma sum_of_nat_lengths:
  "sum_list (map (\<lambda>kg. of_nat (length (snd kg))) gs)
     = (of_nat (sum_list (map (\<lambda>kg. length (snd kg)) gs)) :: rat)"
  by (induction gs) auto

lemma decade_rows_facts:
  assumes ok: "\<forall>d \<in> set ds. year_ok (get_field d ''published_year'')"
  shows "\<exists>rows. run_pipeline decade_pipeline ds = Inr rows
     \<and> sorted_wrt (\<lambda>a b. bson_le (get_field a ''_id'') (get_field b ''_id'')) rows
     \<and> distinct (map (\<lambda>r. get_field r ''_id'') rows)
     \<and> sum_list (map count_of rows) = of_nat (length ds)
     \<and> (\<forall>d \<in> set ds.
          [(''_id'', decade_spec d),
           (''count'', VNum (of_nat (length (filter (\<lambda>d'. decade_spec d' = decade_spec d) ds))))]
            \<in> set rows)"
proof -
  let ?prow = "\<lambda>d. filter (\<lambda>(k, v). k = ''_id'') d @ [(''decade'', decade_spec d)]"
  let ?crow = "\<lambda>kg :: bval \<times> doc list. [(''_id'', fst kg), (''count'', VNum (of_nat (length (snd kg))))]"
  let ?kds = "zip (map decade_spec ds) (map ?prow ds)"
  let ?gs = "group_into ?kds []"
  let ?rows = "sort_docs (doc_le ''_id'' Asc) (map ?crow ?gs)"
  have run: "run_pipeline decade_pipeline ds = Inr ?rows"
    by (rule decade_pipeline_rows [OF ok])
  have le: "doc_le ''_id'' Asc = (\<lambda>a b. bson_le (get_field a ''_id'') (get_field b ''_id''))"
    by (intro ext) simp
  have srt: "sorted_wrt (\<lambda>a b. bson_le (get_field a ''_id'') (get_field b ''_id'')) ?rows"
    using sorted_by_field [of "''_id''" Asc "map ?crow ?gs"] unfolding le .
  have id: "(\<lambda>r. get_field r ''_id'') \<circ> ?crow = fst"
    by (intro ext) (simp add: get_field_def)
  have "distinct (map fst ?gs)"
    by (rule group_into_distinct) simp
  then have dist: "distinct (map (\<lambda>r. get_field r ''_id'') ?rows)"
    by (simp add: distinct_sort_docs id)
  have cnt: "count_of \<circ> ?crow = (\<lambda>kg. of_nat (length (snd kg)))"
    by (intro ext) (simp add: get_field_def)
  have "sum_list (map count_of ?rows) = sum_list (map (\<lambda>kg. of_nat (length (snd kg))) ?gs)"
    by (simp add: sum_sort_docs cnt)
  also have "\<dots> = of_nat (sum_list (map (\<lambda>kg. length (snd kg)) ?gs))"
    by (rule sum_of_nat_lengths)
  also have "\<dots> = of_nat (length ds)"
    by (simp add: group_into_sizes)
  finally have total: "sum_list (map count_of ?rows) = of_nat (length ds)" .
  have mem: "[(''_id'', decade_spec d),
       (''count'', VNum (of_nat (length (filter (\<lambda>d'. decade_spec d' = decade_spec d) ds))))]
        \<in> set ?rows" if d: "d \<in> set ds" for d
  proof -
    let ?g = "map snd (filter (\<lambda>kd. fst kd = decade_spec d) ?kds)"
    have "(decade_spec d, ?g) \<in> set ?gs"
      by (rule group_member_row [OF d])
    then have "?crow (decade_spec d, ?g) \<in> set ?rows"
      unfolding set_sort_docs set_map by (rule imageI)
    moreover have "length ?g = length (filter (\<lambda>d'. decade_spec d' = decade_spec d) ds)"
      by (simp add: filter_zip_keys)
    ultimately show ?thesis by simp
  qed
  from run srt dist total mem show ?thesis by blast
qed

section \<open>The whole script on the seeded collection\<close>

lemma seed_mutations:
  "run_actions (\<lambda>n. False) (connect_step @ step1 @ step2 @ step3 @ step4 @ step5)
     \<lparr>db = \<lparr>docs = [[(''title'', VStr ''1984''), (''price'', VNum 10)],
                    [(''title'', VStr ''Moby Dick'')]],
             indexes = [], is_open = False\<rparr>,
      console = [], issued = []\<rparr> =
   (None,
    \<lparr>db = \<lparr>docs = [[(''title'', VStr ''1984''), (''price'', VNum (1599 / 100))]],
            indexes = [], is_open = True\<rparr>,
     console =
       [Line ''Connected to MongoDB'',
        Line ''1 Books in the Fiction genre:'', Shown (RDocs []),
        Line ''2 Books published after 2000:'', Shown (RDocs []),
        Line ''3 Books by George Orwell:'', Shown (RDocs []),
        Line ''4 Updating price of '1984'...'',
        Shown (RDoc (Some [(''title'', VStr ''1984''), (''price'', VNum (1599 / 100))])),
        Line ''5 Deleting 'Moby Dick'...'',
        Line ''Deleted 'Moby Dick' successfully''],
     issued =
       [Connect uri,
        Find [(''genre'', Eq (VStr ''Fiction''))] no_opts,
        Find [(''published_year'', Gt (VNum 2000))] no_opts,
        Find [(''author'', Eq (VStr ''George Orwell''))] no_opts,
        UpdateOne [(''title'', Eq (VStr ''1984''))] (Set [(''price'', VNum (1599 / 100))]),
        FindOne [(''title'', Eq (VStr ''1984''))],
        DeleteOne [(''title'', Eq (VStr ''Moby Dick''))]]\<rparr>)"
  by (simp add: step_defs await_def find_docs_plain matches_def get_field_def)

lemma seed_reads:
  "\<exists>out. run_actions (\<lambda>n. False) (step6 @ step7 @ step8 @ step9 @ step10)
     \<lparr>db = \<lparr>docs = [[(''title'', VStr ''1984''), (''price'', VNum (1599 / 100))]],
             indexes = [], is_open = True\<rparr>,
      console = c, issued = i\<rparr> =
   (None,
    \<lparr>db = \<lparr>docs = [[(''title'', VStr ''1984''), (''price'', VNum (1599 / 100))]],
            indexes = [], is_open = True\<rparr>,
     console = c @ out,
     issued = i @ calls_of (step6 @ step7 @ step8 @ step9 @ step10)\<rparr>)"
  by (simp add: step_defs await_def)

lemma seed_aggregations:
  "\<exists>out. run_actions (\<lambda>n. False) (step11 @ step12 @ step13)
     \<lparr>db = \<lparr>docs = [[(''title'', VStr ''1984''), (''price'', VNum (1599 / 100))]],
             indexes = [], is_open = True\<rparr>,
      console = c, issued = i\<rparr> =
   (None,
    \<lparr>db = \<lparr>docs = [[(''title'', VStr ''1984''), (''price'', VNum (1599 / 100))]],
            indexes = [], is_open = True\<rparr>,
     console = c @ out,
     issued = i @ calls_of (step11 @ step12 @ step13)\<rparr>)"
  by (simp add: step_defs await_def genre_pipeline_def author_pipeline_def decade_pipeline_def
      decade_expr_def get_field_def)

lemma seed_indexing:
  "\<exists>out. run_actions (\<lambda>n. False) (step14 @ step15 @ step16)
     \<lparr>db = \<lparr>docs = [[(''title'', VStr ''1984''), (''price'', VNum (1599 / 100))]],
             indexes = [], is_open = True\<rparr>,
      console = c, issued = i\<rparr> =
   (None,
    \<lparr>db = \<lparr>docs = [[(''title'', VStr ''1984''), (''price'', VNum (1599 / 100))]],
            indexes = [[(''title'', Asc)], [(''author'', Asc), (''published_year'', Asc)]],
            is_open = True\<rparr>,
     console = c @ out,
     issued = i @ calls_of (step14 @ step15 @ step16)\<rparr>)"
  by (simp add: step_defs await_def)

lemma seed_try:
  "\<exists>out. run_actions (\<lambda>n. False) try_block seed =
   (None,
    \<lparr>db = \<lparr>docs = [[(''title'', VStr ''1984''), (''price'', VNum (1599 / 100))]],
            indexes = [[(''title'', Asc)], [(''author'', Asc), (''published_year'', Asc)]],
            is_open = True\<rparr>,
     console =
       [Line ''Connected to MongoDB'',
        Line ''1 Books in the Fiction genre:'', Shown (RDocs []),
        Line ''2 Books published after 2000:'', Shown (RDocs []),
        Line ''3 Books by George Orwell:'', Shown (RDocs []),
        Line ''4 Updating price of '1984'...'',
        Shown (RDoc (Some [(''title'', VStr ''1984''), (''price'', VNum (1599 / 100))])),
        Line ''5 Deleting 'Moby Dick'...'',
        Line ''Deleted 'Moby Dick' successfully''] @ out,
     issued =
       [Connect uri,
        Find [(''genre'', Eq (VStr ''Fiction''))] no_opts,
        Find [(''published_year'', Gt (VNum 2000))] no_opts,
        Find [(''author'', Eq (VStr ''George Orwell''))] no_opts,
        UpdateOne [(''title'', Eq (VStr ''1984''))] (Set [(''price'', VNum (1599 / 100))]),
        FindOne [(''title'', Eq (VStr ''1984''))],
        DeleteOne [(''title'', Eq (VStr ''Moby Dick''))]]
       @ calls_of (step6 @ step7 @ step8 @ step9 @ step10)
       @ calls_of (step11 @ step12 @ step13)
       @ calls_of (step14 @ step15 @ step16)\<rparr>)"
proof -
  let ?A = "connect_step @ step1 @ step2 @ step3 @ step4 @ step5"
  let ?B = "step6 @ step7 @ step8 @ step9 @ step10"
  let ?C = "step11 @ step12 @ step13"
  let ?D = "step14 @ step15 @ step16"
  have split: "try_block = ?A @ ?B @ ?C @ ?D"
    by (simp add: try_block_def)
  obtain wA where a: "run_actions (\<lambda>n. False) ?A seed = (None, wA)"
    and wA: "wA = \<lparr>db = \<lparr>docs = [[(''title'', VStr ''1984''), (''price'', VNum (1599 / 100))]],
            indexes = [], is_open = True\<rparr>,
     console =
       [Line ''Connected to MongoDB'',
        Line ''1 Books in the Fiction genre:'', Shown (RDocs []),
        Line ''2 Books published after 2000:'', Shown (RDocs []),
        Line ''3 Books by George Orwell:'', Shown (RDocs []),
        Line ''4 Updating price of '1984'...'',
        Shown (RDoc (Some [(''title'', VStr ''1984''), (''price'', VNum (1599 / 100))])),
        Line ''5 Deleting 'Moby Dick'...'',
        Line ''Deleted 'Moby Dick' successfully''],
     issued =
       [Connect uri,
        Find [(''genre'', Eq (VStr ''Fiction''))] no_opts,
        Find [(''published_year'', Gt (VNum 2000))] no_opts,
        Find [(''author'', Eq (VStr ''George Orwell''))] no_opts,
        UpdateOne [(''title'', Eq (VStr ''1984''))] (Set [(''price'', VNum (1599 / 100))]),
        FindOne [(''title'', Eq (VStr ''1984''))],
        DeleteOne [(''title'', Eq (VStr ''Moby Dick''))]]\<rparr>"
    unfolding seed_def using seed_mutations by blast
  obtain outB wB where b: "run_actions (\<lambda>n. False) ?B wA = (None, wB)"
    and wB: "wB = \<lparr>db = \<lparr>docs = [[(''title'', VStr ''1984''), (''price'', VNum (1599 / 100))]],
            indexes = [], is_open = True\<rparr>,
         console = console wA @ outB, issued = issued wA @ calls_of ?B\<rparr>"
    using seed_reads [of "console wA" "issued wA"] unfolding wA by auto
  obtain outC wC where c: "run_actions (\<lambda>n. False) ?C wB = (None, wC)"
    and wC: "wC = \<lparr>db = \<lparr>docs = [[(''title'', VStr ''1984''), (''price'', VNum (1599 / 100))]],
            indexes = [], is_open = True\<rparr>,
         console = console wB @ outC, issued = issued wB @ calls_of ?C\<rparr>"
    using seed_aggregations [of "console wB" "issued wB"] unfolding wB by auto
  obtain outD wD where d: "run_actions (\<lambda>n. False) ?D wC = (None, wD)"
    and wD: "wD = \<lparr>db = \<lparr>docs = [[(''title'', VStr ''1984''), (''price'', VNum (1599 / 100))]],
            indexes = [[(''title'', Asc)], [(''author'', Asc), (''published_year'', Asc)]],
            is_open = True\<rparr>,
         console = console wC @ outD, issued = issued wC @ calls_of ?D\<rparr>"
    using seed_indexing [of "console wC" "issued wC"] unfolding wC by auto
  have t: "run_actions (\<lambda>n. False) try_block seed = (None, wD)"
    unfolding split
    by (simp only: run_actions_append [of _ ?A "?B @ ?C @ ?D"] run_actions_append [of _ ?B "?C @ ?D"]
        run_actions_append [of _ ?C ?D] a b c d prod.case option.case)
  show ?thesis
    unfolding t unfolding wD wC wB wA by (intro exI [of _ "outB @ outC @ outD"]) simp
qed

lemma seed_try_ok: "fst (run_actions (\<lambda>n. False) try_block seed) = None"
  using seed_try by auto

lemma seed_run:
  "\<exists>out. runQueries (\<lambda>n. False) seed =
   (None,
    \<lparr>db = \<lparr>docs = [[(''title'', VStr ''1984''), (''price'', VNum (1599 / 100))]],
            indexes = [[(''title'', Asc)], [(''author'', Asc), (''published_year'', Asc)]],
            is_open = False\<rparr>,
     console =
       [Line ''Connected to MongoDB'',
        Line ''1 Books in the Fiction genre:'', Shown (RDocs []),
        Line ''2 Books published after 2000:'', Shown (RDocs []),
        Line ''3 Books by George Orwell:'', Shown (RDocs []),
        Line ''4 Updating price of '1984'...'',
        Shown (RDoc (Some [(''title'', VStr ''1984''), (''price'', VNum (1599 / 100))])),
        Line ''5 Deleting 'Moby Dick'...'',
        Line ''Deleted 'Moby Dick' successfully''] @ out @ [Line ''Connection closed''],
     issued =
       [Connect uri,
        Find [(''genre'', Eq (VStr ''Fiction''))] no_opts,
        Find [(''published_year'', Gt (VNum 2000))] no_opts,
        Find [(''author'', Eq (VStr ''George Orwell''))] no_opts,
        UpdateOne [(''title'', Eq (VStr ''1984''))] (Set [(''price'', VNum (1599 / 100))]),
        FindOne [(''title'', Eq (VStr ''1984''))],
        DeleteOne [(''title'', Eq (VStr ''Moby Dick''))]]
       @ calls_of (step6 @ step7 @ step8 @ step9 @ step10)
       @ calls_of (step11 @ step12 @ step13)
       @ calls_of (step14 @ step15 @ step16) @ [Close]\<rparr>)"
proof -
  from seed_try obtain out w where t: "run_actions (\<lambda>n. False) try_block seed = (None, w)"
    and w: "w = \<lparr>db = \<lparr>docs = [[(''title'', VStr ''1984''), (''price'', VNum (1599 / 100))]],
            indexes = [[(''title'', Asc)], [(''author'', Asc), (''published_year'', Asc)]],
            is_open = True\<rparr>,
     console =
       [Line ''Connected to MongoDB'',
        Line ''1 Books in the Fiction genre:'', Shown (RDocs []),
        Line ''2 Books published after 2000:'', Shown (RDocs []),
        Line ''3 Books by George Orwell:'', Shown (RDocs []),
        Line ''4 Updating price of '1984'...'',
        Shown (RDoc (Some [(''title'', VStr ''1984''), (''price'', VNum (1599 / 100))])),
        Line ''5 Deleting 'Moby Dick'...'',
        Line ''Deleted 'Moby Dick' successfully''] @ out,
     issued =
       [Connect uri,
        Find [(''genre'', Eq (VStr ''Fiction''))] no_opts,
        Find [(''published_year'', Gt (VNum 2000))] no_opts,
        Find [(''author'', Eq (VStr ''George Orwell''))] no_opts,
        UpdateOne [(''title'', Eq (VStr ''1984''))] (Set [(''price'', VNum (1599 / 100))]),
        FindOne [(''title'', Eq (VStr ''1984''))],
        DeleteOne [(''title'', Eq (VStr ''Moby Dick''))]]
       @ calls_of (step6 @ step7 @ step8 @ step9 @ step10)
       @ calls_of (step11 @ step12 @ step13)
       @ calls_of (step14 @ step15 @ step16)\<rparr>"
    by blast
  have "runQueries (\<lambda>n. False) seed = run_actions (\<lambda>n. False) finally_block w"
    by (simp add: runQueries_def t)
  then show ?thesis
    unfolding run_finally w by (intro exI [of _ out]) simp
qed

section \<open>The properties of the specification\<close>

text \<open>
  Claim C1. From the collection seeded with \<open>{title: 1984, price: 10}\<close> and
  \<open>{title: Moby Dick}\<close>, with no driver fault, \<^verbatim>\<open>runQueries\<close> ends without an error and the
  handler prints nothing; the collection then holds the one document \<open>1984\<close> with price
  15.99; step 4 printed that document as its read-back; reading \<open>1984\<close> back afterwards
  gives price 15.99 and reading \<open>Moby Dick\<close> gives null; the only update the run issued has
  the filter \<open>{title: 1984}\<close> and sets the one field \<^verbatim>\<open>price\<close> to 15.99.
\<close>

theorem end_to_end_scenario:
  "fst (runQueries (\<lambda>n. False) seed) = None
   \<and> err_lines (console (snd (runQueries (\<lambda>n. False) seed))) = []
   \<and> docs (db (snd (runQueries (\<lambda>n. False) seed)))
       = [[(''title'', VStr ''1984''), (''price'', VNum (1599 / 100))]]
   \<and> Shown (RDoc (Some [(''title'', VStr ''1984''), (''price'', VNum (1599 / 100))]))
       \<in> set (console (snd (runQueries (\<lambda>n. False) seed)))
   \<and> fst (await (\<lambda>n. False) (FindOne [(''title'', Eq (VStr ''1984''))]) (snd (runQueries (\<lambda>n. False) seed)))
       = Inr (RDoc (Some [(''title'', VStr ''1984''), (''price'', VNum (1599 / 100))]))
   \<and> fst (await (\<lambda>n. False) (FindOne [(''title'', Eq (VStr ''Moby Dick''))]) (snd (runQueries (\<lambda>n. False) seed)))
       = Inr (RDoc None)
   \<and> updates_of (issued (snd (runQueries (\<lambda>n. False) seed)))
       = [([(''title'', Eq (VStr ''1984''))], Set [(''price'', VNum (1599 / 100))])]"
proof -
  from seed_run obtain out where
    run: "runQueries (\<lambda>n. False) seed =
   (None,
    \<lparr>db = \<lparr>docs = [[(''title'', VStr ''1984''), (''price'', VNum (1599 / 100))]],
            indexes = [[(''title'', Asc)], [(''author'', Asc), (''published_year'', Asc)]],
            is_open = False\<rparr>,
     console =
       [Line ''Connected to MongoDB'',
        Line ''1 Books in the Fiction genre:'', Shown (RDocs []),
        Line ''2 Books published after 2000:'', Shown (RDocs []),
        Line ''3 Books by George Orwell:'', Shown (RDocs []),
        Line ''4 Updating price of '1984'...'',
        Shown (RDoc (Some [(''title'', VStr ''1984''), (''price'', VNum (1599 / 100))])),
        Line ''5 Deleting 'Moby Dick'...'',
        Line ''Deleted 'Moby Dick' successfully''] @ out @ [Line ''Connection closed''],
     issued =
       [Connect uri,
        Find [(''genre'', Eq (VStr ''Fiction''))] no_opts,
        Find [(''published_year'', Gt (VNum 2000))] no_opts,
        Find [(''author'', Eq (VStr ''George Orwell''))] no_opts,
        UpdateOne [(''title'', Eq (VStr ''1984''))] (Set [(''price'', VNum (1599 / 100))]),
        FindOne [(''title'', Eq (VStr ''1984''))],
        DeleteOne [(''title'', Eq (VStr ''Moby Dick''))]]
       @ calls_of (step6 @ step7 @ step8 @ step9 @ step10)
       @ calls_of (step11 @ step12 @ step13)
       @ calls_of (step14 @ step15 @ step16) @ [Close]\<rparr>)"
    by blast
  have errs: "err_lines (console (snd (runQueries (\<lambda>n. False) seed))) = []"
    by (simp add: runQueries_err_lines seed_try_ok) (simp add: seed_def)
  show ?thesis
    unfolding errs unfolding run
    by (simp add: await_def matches_def get_field_def step_defs)
qed



text \<open>
  Claim C3. On every collection, with no driver fault, steps 4 and 5 end normally, issue
  the update, the read-back and the delete, and print their labels, the read-back and the
  line \<open>Deleted 'Moby Dick' successfully\<close>, whether or not a document matched. When no
  document is titled \<open>1984\<close> the update leaves the collection as it was and the read-back
  is null; when none is titled \<open>Moby Dick\<close> the delete leaves the collection as it was.
\<close>

theorem not_found_is_success:
  "run_actions (\<lambda>n. False) (step4 @ step5) w =
     (None,
      \<lparr>db = (db w)\<lparr>docs :=
          delete_first (matches [(''title'', Eq (VStr ''Moby Dick''))])
            (update_first (matches [(''title'', Eq (VStr ''1984''))])
               (set_field ''price'' (VNum (1599 / 100))) (docs (db w)))\<rparr>,
       console = console w @
         [Line ''4 Updating price of '1984'...'',
          Shown (RDoc (List.find (matches [(''title'', Eq (VStr ''1984''))])
            (update_first (matches [(''title'', Eq (VStr ''1984''))])
               (set_field ''price'' (VNum (1599 / 100))) (docs (db w))))),
          Line ''5 Deleting 'Moby Dick'...'',
          Line ''Deleted 'Moby Dick' successfully''],
       issued = issued w @
         [UpdateOne [(''title'', Eq (VStr ''1984''))] (Set [(''price'', VNum (1599 / 100))]),
          FindOne [(''title'', Eq (VStr ''1984''))],
          DeleteOne [(''title'', Eq (VStr ''Moby Dick''))]]\<rparr>)
   \<and> (\<not> list_ex (matches [(''title'', Eq (VStr ''1984''))]) (docs (db w)) \<longrightarrow>
        update_first (matches [(''title'', Eq (VStr ''1984''))])
          (set_field ''price'' (VNum (1599 / 100))) (docs (db w)) = docs (db w)
        \<and> List.find (matches [(''title'', Eq (VStr ''1984''))]) (docs (db w)) = None)
   \<and> (\<not> list_ex (matches [(''title'', Eq (VStr ''Moby Dick''))]) ds \<longrightarrow>
        delete_first (matches [(''title'', Eq (VStr ''Moby Dick''))]) ds = ds)"
proof (intro conjI impI)
  assume "\<not> list_ex (matches [(''title'', Eq (VStr ''1984''))]) (docs (db w))"
  then show "update_first (matches [(''title'', Eq (VStr ''1984''))])
          (set_field ''price'' (VNum (1599 / 100))) (docs (db w)) = docs (db w)"
    and "List.find (matches [(''title'', Eq (VStr ''1984''))]) (docs (db w)) = None"
    by (rule update_first_no_match, rule find_no_match)
next
  assume "\<not> list_ex (matches [(''title'', Eq (VStr ''Moby Dick''))]) ds"
  then show "delete_first (matches [(''title'', Eq (VStr ''Moby Dick''))]) ds = ds"
    by (rule delete_first_no_match)
qed (rule run_step4_step5)

theorem not_found_is_success_witness:
  "\<not> list_ex (matches [(''title'', Eq (VStr ''1984''))]) [[(''title'', VStr ''Emma'')]]
   \<and> \<not> list_ex (matches [(''title'', Eq (VStr ''Moby Dick''))]) [[(''title'', VStr ''Emma'')]]
   \<and> run_actions (\<lambda>n. False) (step4 @ step5)
        \<lparr>db = \<lparr>docs = [[(''title'', VStr ''Emma'')]], indexes = [], is_open = True\<rparr>,
         console = [], issued = []\<rparr> =
       (None,
        \<lparr>db = \<lparr>docs = [[(''title'', VStr ''Emma'')]], indexes = [], is_open = True\<rparr>,
         console = [Line ''4 Updating price of '1984'...'', Shown (RDoc None),
                    Line ''5 Deleting 'Moby Dick'...'', Line ''Deleted 'Moby Dick' successfully''],
         issued = [UpdateOne [(''title'', Eq (VStr ''1984''))] (Set [(''price'', VNum (1599 / 100))]),
                   FindOne [(''title'', Eq (VStr ''1984''))],
                   DeleteOne [(''title'', Eq (VStr ''Moby Dick''))]]\<rparr>)"
  using not_found_is_success
    [of "\<lparr>db = \<lparr>docs = [[(''title'', VStr ''Emma'')]], indexes = [], is_open = True\<rparr>,
         console = [], issued = []\<rparr>" "[[(''title'', VStr ''Emma'')]]"]
  by (simp add: matches_def get_field_def)

text \<open>
  Claim C5. On every collection, with no driver fault, step 8 prints the first five
  documents of the collection sorted by ascending \<^verbatim>\<open>price\<close> and step 9 the first five
  sorted by descending \<^verbatim>\<open>price\<close>: the prices printed by step 8 never decrease, those
  printed by step 9 never increase (in the BSON order, which on numbers is \<open>\<le>\<close>), and
  each result has at most five documents. The collection is left as it was.
\<close>

theorem sorted_reads_capped:
  "run_actions (\<lambda>n. False) step8 w =
     (None, \<lparr>db = db w,
             console = console w @ [Line ''8 Books sorted by price (ascending):'',
               Shown (RDocs (take 5 (sort_docs (doc_le ''price'' Asc) (docs (db w)))))],
             issued = issued w @ [Find [] (no_opts\<lparr>sort_key := Some (''price'', Asc), limit_n := Some 5\<rparr>)]\<rparr>)
   \<and> sorted_wrt (\<lambda>a b. bson_le (get_field a ''price'') (get_field b ''price''))
        (take 5 (sort_docs (doc_le ''price'' Asc) (docs (db w))))
   \<and> length (take 5 (sort_docs (doc_le ''price'' Asc) (docs (db w)))) \<le> 5
   \<and> run_actions (\<lambda>n. False) step9 w =
     (None, \<lparr>db = db w,
             console = console w @ [Line ''9 Books sorted by price (descending):'',
               Shown (RDocs (take 5 (sort_docs (doc_le ''price'' Desc) (docs (db w)))))],
             issued = issued w @ [Find [] (no_opts\<lparr>sort_key := Some (''price'', Desc), limit_n := Some 5\<rparr>)]\<rparr>)
   \<and> sorted_wrt (\<lambda>a b. bson_le (get_field b ''price'') (get_field a ''price''))
        (take 5 (sort_docs (doc_le ''price'' Desc) (docs (db w))))
   \<and> length (take 5 (sort_docs (doc_le ''price'' Desc) (docs (db w)))) \<le> 5"
proof (intro conjI)
  show "run_actions (\<lambda>n. False) step8 w =
     (None, \<lparr>db = db w,
             console = console w @ [Line ''8 Books sorted by price (ascending):'',
               Shown (RDocs (take 5 (sort_docs (doc_le ''price'' Asc) (docs (db w)))))],
             issued = issued w @ [Find [] (no_opts\<lparr>sort_key := Some (''price'', Asc), limit_n := Some 5\<rparr>)]\<rparr>)"
    unfolding step8_def
    by (rule run_say_print) (simp_all add: find_docs_def no_opts_def matches_all project_none)
  show "run_actions (\<lambda>n. False) step9 w =
     (None, \<lparr>db = db w,
             console = console w @ [Line ''9 Books sorted by price (descending):'',
               Shown (RDocs (take 5 (sort_docs (doc_le ''price'' Desc) (docs (db w)))))],
             issued = issued w @ [Find [] (no_opts\<lparr>sort_key := Some (''price'', Desc), limit_n := Some 5\<rparr>)]\<rparr>)"
    unfolding step9_def
    by (rule run_say_print) (simp_all add: find_docs_def no_opts_def matches_all project_none)
  have "sorted_wrt (doc_le ''price'' Asc) (take 5 (sort_docs (doc_le ''price'' Asc) (docs (db w))))"
    by (rule sorted_wrt_take [OF sorted_by_field])
  moreover have "doc_le ''price'' Asc = (\<lambda>a b. bson_le (get_field a ''price'') (get_field b ''price''))"
    by (intro ext) simp
  ultimately show "sorted_wrt (\<lambda>a b. bson_le (get_field a ''price'') (get_field b ''price''))
        (take 5 (sort_docs (doc_le ''price'' Asc) (docs (db w))))" by simp
  have "sorted_wrt (doc_le ''price'' Desc) (take 5 (sort_docs (doc_le ''price'' Desc) (docs (db w))))"
    by (rule sorted_wrt_take [OF sorted_by_field])
  moreover have "doc_le ''price'' Desc = (\<lambda>a b. bson_le (get_field b ''price'') (get_field a ''price''))"
    by (intro ext) simp
  ultimately show "sorted_wrt (\<lambda>a b. bson_le (get_field b ''price'') (get_field a ''price''))
        (take 5 (sort_docs (doc_le ''price'' Desc) (docs (db w))))" by simp
qed simp_all

text \<open>
  Claim C4. With \<open>page = 2\<close> and \<open>pageSize = 5\<close> the script computes \<open>skip = 5\<close>, and on every
  collection step 10 prints the stored documents after the first five, at most five of
  them.
\<close>

theorem pagination_second_page:
  "skip = (page - 1) * pageSize \<and> skip = 5 \<and> pageSize = 5
   \<and> run_actions (\<lambda>n. False) step10 w =
     (None, \<lparr>db = db w,
             console = console w @ [Line ''10 Page 2 (5 books per page):'',
               Shown (RDocs (take pageSize (drop skip (docs (db w)))))],
             issued = issued w @ [Find [] (no_opts\<lparr>skip_n := skip, limit_n := Some pageSize\<rparr>)]\<rparr>)
   \<and> length (take pageSize (drop skip (docs (db w)))) \<le> 5
   \<and> length (take pageSize (drop skip (docs (db w)))) = min 5 (length (docs (db w)) - 5)"
proof (intro conjI)
  show "run_actions (\<lambda>n. False) step10 w =
     (None, \<lparr>db = db w,
             console = console w @ [Line ''10 Page 2 (5 books per page):'',
               Shown (RDocs (take pageSize (drop skip (docs (db w)))))],
             issued = issued w @ [Find [] (no_opts\<lparr>skip_n := skip, limit_n := Some pageSize\<rparr>)]\<rparr>)"
    unfolding step10_def
    by (rule run_say_print) (simp_all add: find_docs_def no_opts_def matches_all project_none)
qed (simp_all add: skip_def page_def pageSize_def)

text \<open>
  Claim C6 as stated fails on a collection that holds, beside a document of 1987, a
  document whose \<^verbatim>\<open>published_year\<close> is a string: \<^verbatim>\<open>$divide\<close> raises on the string,
  step 13 prints no row at all, and the document of 1987 is counted in no bucket.
\<close>

theorem decade_bucket_lost_beside_text_year:
  "run_pipeline decade_pipeline
     [[(''published_year'', VNum 1987)], [(''published_year'', VStr ''1815'')]]
     = Inl (NonNumeric ''$divide'')
   \<and> run_actions (\<lambda>n. False) step13
       \<lparr>db = \<lparr>docs = [[(''published_year'', VNum 1987)], [(''published_year'', VStr ''1815'')]],
               indexes = [], is_open = True\<rparr>,
        console = [], issued = []\<rparr>
     = (Some (NonNumeric ''$divide''),
        \<lparr>db = \<lparr>docs = [[(''published_year'', VNum 1987)], [(''published_year'', VStr ''1815'')]],
               indexes = [], is_open = True\<rparr>,
         console = [Line ''Books grouped by publication decade:''],
         issued = [Aggregate decade_pipeline]\<rparr>)"
proof -
  have "run_pipeline decade_pipeline
     [[(''published_year'', VNum 1987)], [(''published_year'', VStr ''1815'')]]
     = Inl (NonNumeric ''$divide'')"
    by (simp add: decade_pipeline_def decade_expr_def get_field_def)
  then show ?thesis
    by (simp add: step13_def await_def)
qed

text \<open>
  Claim C6, amended. When every \<^verbatim>\<open>published_year\<close> in the collection is a number, null
  or absent, step 13, with no driver fault, ends normally, leaves the collection as it
  was and prints the rows of its pipeline: they are sorted by ascending \<^verbatim>\<open>_id\<close>, their
  \<^verbatim>\<open>_id\<close> are pairwise distinct, and for every document with a numeric year \<open>y\<close> the row
  of bucket \<open>floor(y/10)*10\<close> is among them, its count being the number of documents of
  that decade. The decade expression sends 1987 to 1980.
\<close>

theorem decade_buckets:
  assumes "\<forall>d \<in> set (docs (db w)). year_ok (get_field d ''published_year'')"
  shows "\<exists>rows. run_pipeline decade_pipeline (docs (db w)) = Inr rows
     \<and> run_actions (\<lambda>n. False) step13 w =
         (None,
          \<lparr>db = db w,
           console = console w @ [Line ''Books grouped by publication decade:'', Shown (RDocs rows)],
           issued = issued w @ [Aggregate decade_pipeline]\<rparr>)
     \<and> sorted_wrt (\<lambda>a b. bson_le (get_field a ''_id'') (get_field b ''_id'')) rows
     \<and> distinct (map (\<lambda>r. get_field r ''_id'') rows)
     \<and> (\<forall>d \<in> set (docs (db w)). \<forall>y. get_field d ''published_year'' = VNum y \<longrightarrow>
          [(''_id'', VNum (of_int (\<lfloor>y / 10\<rfloor> * 10))),
           (''count'', VNum (of_nat (length
              (filter (\<lambda>d'. decade_spec d' = VNum (of_int (\<lfloor>y / 10\<rfloor> * 10))) (docs (db w))))))]
            \<in> set rows)
     \<and> eval_expr decade_expr [(''published_year'', VNum 1987)] = Inr (VNum 1980)
     \<and> decade_spec [(''published_year'', VNum 1987)] = VNum 1980"
proof -
  let ?ds = "docs (db w)"
  from decade_rows_facts [OF assms] obtain rows where
    run: "run_pipeline decade_pipeline ?ds = Inr rows"
    and srt: "sorted_wrt (\<lambda>a b. bson_le (get_field a ''_id'') (get_field b ''_id'')) rows"
    and dist: "distinct (map (\<lambda>r. get_field r ''_id'') rows)"
    and mem: "\<forall>d \<in> set ?ds.
          [(''_id'', decade_spec d),
           (''count'', VNum (of_nat (length (filter (\<lambda>d'. decade_spec d' = decade_spec d) ?ds))))]
            \<in> set rows"
    by blast
  have step: "run_actions (\<lambda>n. False) step13 w =
         (None,
          \<lparr>db = db w,
           console = console w @ [Line ''Books grouped by publication decade:'', Shown (RDocs rows)],
           issued = issued w @ [Aggregate decade_pipeline]\<rparr>)"
    unfolding step13_def by (rule run_say_print) (simp_all add: run)
  have bucket: "[(''_id'', VNum (of_int (\<lfloor>y / 10\<rfloor> * 10))),
         (''count'', VNum (of_nat (length
            (filter (\<lambda>d'. decade_spec d' = VNum (of_int (\<lfloor>y / 10\<rfloor> * 10))) ?ds))))] \<in> set rows"
    if "d \<in> set ?ds" "get_field d ''published_year'' = VNum y" for d y
  proof -
    from that(2) have "decade_spec d = VNum (of_int (\<lfloor>y / 10\<rfloor> * 10))"
      by (simp add: decade_spec_def)
    with mem that(1) show ?thesis by metis
  qed
  have e87: "eval_expr decade_expr [(''published_year'', VNum 1987)] = Inr (VNum 1980)"
    by (simp add: decade_expr_def get_field_def floor_numeral_div)
  have s87: "decade_spec [(''published_year'', VNum 1987)] = VNum 1980"
    by (simp add: decade_spec_def get_field_def floor_numeral_div)
  from run step srt dist bucket e87 s87 show ?thesis by blast
qed

theorem decade_buckets_witness:
  "list_all (\<lambda>d. year_ok (get_field d ''published_year''))
      [[(''published_year'', VNum 1987)], [(''published_year'', VNum 1990)],
       [(''title'', VStr ''Emma'')], [(''published_year'', VNum 1981)]]
   \<and> run_actions (\<lambda>n. False) step13
        \<lparr>db = \<lparr>docs = [[(''published_year'', VNum 1987)], [(''published_year'', VNum 1990)],
                        [(''title'', VStr ''Emma'')], [(''published_year'', VNum 1981)]],
                indexes = [], is_open = True\<rparr>,
         console = [], issued = []\<rparr>
     = (None,
        \<lparr>db = \<lparr>docs = [[(''published_year'', VNum 1987)], [(''published_year'', VNum 1990)],
                        [(''title'', VStr ''Emma'')], [(''published_year'', VNum 1981)]],
                indexes = [], is_open = True\<rparr>,
         console = [Line ''Books grouped by publication decade:'',
                    Shown (RDocs [[(''_id'', VNull), (''count'', VNum 1)],
                                  [(''_id'', VNum 1980), (''count'', VNum 2)],
                                  [(''_id'', VNum 1990), (''count'', VNum 1)]])],
         issued = [Aggregate decade_pipeline]\<rparr>)"
proof -
  have rows: "run_pipeline decade_pipeline
        [[(''published_year'', VNum 1987)], [(''published_year'', VNum 1990)],
         [(''title'', VStr ''Emma'')], [(''published_year'', VNum 1981)]]
     = Inr [[(''_id'', VNull), (''count'', VNum 1)],
            [(''_id'', VNum 1980), (''count'', VNum 2)],
            [(''_id'', VNum 1990), (''count'', VNum 1)]]"
    by (simp add: decade_pipeline_def decade_expr_def get_field_def floor_numeral_div)
  show ?thesis
    using decade_buckets
      [of "\<lparr>db = \<lparr>docs = [[(''published_year'', VNum 1987)], [(''published_year'', VNum 1990)],
                        [(''title'', VStr ''Emma'')], [(''published_year'', VNum 1981)]],
                indexes = [], is_open = True\<rparr>,
         console = [], issued = []\<rparr>"]
    by (simp add: rows get_field_def)
qed

text \<open>
  Claim C8. On every collection and set of indexes, with no driver fault, running step 14
  twice raises nothing and leaves the same collection and indexes as running it once: the
  title index is there once more than before only when it was absent. The same holds for
  step 15 and the compound index on author and published_year.
\<close>

theorem create_index_idempotent:
  "run_actions (\<lambda>n. False) (step14 @ step14) w =
     (None,
      \<lparr>db = (db w)\<lparr>indexes :=
          (if [(''title'', Asc)] \<in> set (indexes (db w)) then indexes (db w)
           else indexes (db w) @ [[(''title'', Asc)]])\<rparr>,
       console = console w @ [Line ''Creating index on title...'', Line ''Creating index on title...''],
       issued = issued w @ [CreateIndex [(''title'', Asc)], CreateIndex [(''title'', Asc)]]\<rparr>)
   \<and> db (snd (run_actions (\<lambda>n. False) (step14 @ step14) w))
       = db (snd (run_actions (\<lambda>n. False) step14 w))
   \<and> run_actions (\<lambda>n. False) (step15 @ step15) w =
     (None,
      \<lparr>db = (db w)\<lparr>indexes :=
          (if [(''author'', Asc), (''published_year'', Asc)] \<in> set (indexes (db w)) then indexes (db w)
           else indexes (db w) @ [[(''author'', Asc), (''published_year'', Asc)]])\<rparr>,
       console = console w @ [Line ''Creating compound index on author + published_year...'',
                              Line ''Creating compound index on author + published_year...''],
       issued = issued w @ [CreateIndex [(''author'', Asc), (''published_year'', Asc)],
                            CreateIndex [(''author'', Asc), (''published_year'', Asc)]]\<rparr>)
   \<and> db (snd (run_actions (\<lambda>n. False) (step15 @ step15) w))
       = db (snd (run_actions (\<lambda>n. False) step15 w))
   \<and> count_list (indexes (db (snd (run_actions (\<lambda>n. False) (step14 @ step14) w)))) [(''title'', Asc)]
       = max 1 (count_list (indexes (db w)) [(''title'', Asc)])
   \<and> count_list (indexes (db (snd (run_actions (\<lambda>n. False) (step15 @ step15) w))))
         [(''author'', Asc), (''published_year'', Asc)]
       = max 1 (count_list (indexes (db w)) [(''author'', Asc), (''published_year'', Asc)])"
proof -
  have sel: "indexes (s\<lparr>indexes := ix\<rparr>) = ix" for s :: store and ix
    by simp
  show ?thesis
    unfolding step14_def step15_def create_index_twice create_index_once
    by (simp only: snd_conv world.simps sel count_after_create simp_thms)
qed

text \<open>
  Claim C9. Whatever the collection holds (several documents may share a title) and
  whichever calls fail: after step 4 the documents are as before, or one document titled
  \<open>1984\<close> has had its \<^verbatim>\<open>price\<close> set and every other document is in place unchanged;
  setting \<^verbatim>\<open>price\<close> leaves every other field of the document as it was, in order; after
  step 5 the documents are as before, or one document titled \<open>Moby Dick\<close> is gone and the
  others are in place unchanged. Neither step touches the indexes.
\<close>

theorem mutations_touch_one_document:
  "(docs (db (snd (run_actions env step4 w))) = docs (db w)
    \<or> (\<exists>pre d post. docs (db w) = pre @ d # post \<and> get_field d ''title'' = VStr ''1984''
          \<and> docs (db (snd (run_actions env step4 w)))
              = pre @ set_field ''price'' (VNum (1599 / 100)) d # post))
   \<and> filter (\<lambda>(k, v). k \<noteq> ''price'') (set_field ''price'' x b) = filter (\<lambda>(k, v). k \<noteq> ''price'') b
   \<and> get_field (set_field ''price'' x b) ''price'' = x
   \<and> (docs (db (snd (run_actions env step5 w))) = docs (db w)
    \<or> (\<exists>pre d post. docs (db w) = pre @ d # post \<and> get_field d ''title'' = VStr ''Moby Dick''
          \<and> docs (db (snd (run_actions env step5 w))) = pre @ post))
   \<and> indexes (db (snd (run_actions env step4 w))) = indexes (db w)
   \<and> indexes (db (snd (run_actions env step5 w))) = indexes (db w)"
proof (intro conjI)
  show "docs (db (snd (run_actions env step4 w))) = docs (db w)
    \<or> (\<exists>pre d post. docs (db w) = pre @ d # post \<and> get_field d ''title'' = VStr ''1984''
          \<and> docs (db (snd (run_actions env step4 w)))
              = pre @ set_field ''price'' (VNum (1599 / 100)) d # post)"
    using step4_docs [of env w]
      update_first_cases [of "matches [(''title'', Eq (VStr ''1984''))]"
        "set_field ''price'' (VNum (1599 / 100))" "docs (db w)"]
    unfolding matches_title by metis
  show "docs (db (snd (run_actions env step5 w))) = docs (db w)
    \<or> (\<exists>pre d post. docs (db w) = pre @ d # post \<and> get_field d ''title'' = VStr ''Moby Dick''
          \<and> docs (db (snd (run_actions env step5 w))) = pre @ post)"
    using step5_docs [of env w]
      delete_first_cases [of "matches [(''title'', Eq (VStr ''Moby Dick''))]" "docs (db w)"]
    unfolding matches_title by metis
qed (simp_all add: set_field_others get_set_field step45_indexes)

text \<open>
  Claim C10 as stated fails on a collection holding a document whose \<^verbatim>\<open>published_year\<close>
  is a string: \<^verbatim>\<open>$divide\<close> raises, step 13 prints no row, and the script goes to its
  handler.
\<close>

theorem decade_pipeline_rejects_text_year:
  "run_pipeline decade_pipeline [[(''title'', VStr ''Emma''), (''published_year'', VStr ''1815'')]]
     = Inl (NonNumeric ''$divide'')
   \<and> run_actions (\<lambda>n. False) step13
       \<lparr>db = \<lparr>docs = [[(''title'', VStr ''Emma''), (''published_year'', VStr ''1815'')]],
               indexes = [], is_open = True\<rparr>,
        console = [], issued = []\<rparr>
     = (Some (NonNumeric ''$divide''),
        \<lparr>db = \<lparr>docs = [[(''title'', VStr ''Emma''), (''published_year'', VStr ''1815'')]],
               indexes = [], is_open = True\<rparr>,
         console = [Line ''Books grouped by publication decade:''],
         issued = [Aggregate decade_pipeline]\<rparr>)"
proof -
  have "run_pipeline decade_pipeline [[(''title'', VStr ''Emma''), (''published_year'', VStr ''1815'')]]
     = Inl (NonNumeric ''$divide'')"
    by (simp add: decade_pipeline_def decade_expr_def get_field_def)
  then show ?thesis
    by (simp add: step13_def await_def)
qed

text \<open>
  Claim C10, amended. When every \<^verbatim>\<open>published_year\<close> in the collection is a number, null
  or absent, the pipeline of step 13 returns rows with pairwise distinct \<^verbatim>\<open>_id\<close>, the
  bucket of every document (the null bucket for a null or absent year) is the \<^verbatim>\<open>_id\<close> of
  one of them, and the counts add up to the number of documents.
\<close>

theorem decade_counts_partition:
  assumes "\<forall>d \<in> set ds. year_ok (get_field d ''published_year'')"
  shows "\<exists>rows. run_pipeline decade_pipeline ds = Inr rows
     \<and> distinct (map (\<lambda>r. get_field r ''_id'') rows)
     \<and> (\<forall>d \<in> set ds. decade_spec d \<in> set (map (\<lambda>r. get_field r ''_id'') rows))
     \<and> sum_list (map count_of rows) = of_nat (length ds)"
proof -
  from decade_rows_facts [OF assms] obtain rows where
    run: "run_pipeline decade_pipeline ds = Inr rows"
    and dist: "distinct (map (\<lambda>r. get_field r ''_id'') rows)"
    and total: "sum_list (map count_of rows) = of_nat (length ds)"
    and mem: "\<forall>d \<in> set ds.
          [(''_id'', decade_spec d),
           (''count'', VNum (of_nat (length (filter (\<lambda>d'. decade_spec d' = decade_spec d) ds))))]
            \<in> set rows"
    by blast
  have "decade_spec d \<in> set (map (\<lambda>r. get_field r ''_id'') rows)" if "d \<in> set ds" for d
  proof -
    let ?r = "[(''_id'', decade_spec d),
           (''count'', VNum (of_nat (length (filter (\<lambda>d'. decade_spec d' = decade_spec d) ds))))]"
    from mem that have "?r \<in> set rows" by blast
    then have "get_field ?r ''_id'' \<in> set (map (\<lambda>r. get_field r ''_id'') rows)"
      unfolding set_map by (rule imageI)
    then show ?thesis by (simp add: get_field_def)
  qed
  with run dist total show ?thesis by blast
qed

theorem decade_counts_partition_witness:
  "list_all (\<lambda>d. year_ok (get_field d ''published_year''))
      [[(''published_year'', VNum 1987)], [(''published_year'', VNull)],
       [(''title'', VStr ''Emma'')], [(''published_year'', VNum 1981)]]
   \<and> run_pipeline decade_pipeline
        [[(''published_year'', VNum 1987)], [(''published_year'', VNull)],
         [(''title'', VStr ''Emma'')], [(''published_year'', VNum 1981)]]
     = Inr [[(''_id'', VNull), (''count'', VNum 2)],
            [(''_id'', VNum 1980), (''count'', VNum 2)]]
   \<and> sum_list (map count_of [[(''_id'', VNull), (''count'', VNum 2)],
            [(''_id'', VNum 1980), (''count'', VNum 2)]]) = 4"
  using decade_counts_partition [of "[[(''published_year'', VNum 1987)], [(''published_year'', VNull)],
                [(''title'', VStr ''Emma'')], [(''published_year'', VNum 1981)]]"]
  by (simp add: decade_pipeline_def decade_expr_def get_field_def floor_numeral_div)

end
